theory Spec2Isabelle
  imports Complex_Main "HOL-Library.AList"
begin

section \<open>SmoothMovementManager: the animation engine of src/electron/SmoothMovementManager.ts\<close>

text \<open>
  The engine is single threaded and timer driven. The model is an explicit state: the
  windows (external objects with bounds, opacity and a destroyed flag), the wall clock
  read by \<open>Date.now()\<close>, the runtime's table of pending \<open>setTimeout\<close> callbacks, and the
  engine's own fields \<open>animationTimers\<close> and \<open>isAnimating\<close>. Every setter call and every
  invocation of an \<open>onComplete\<close> continuation is appended to a trace, so that "how many
  writes" and "how often was the continuation called" are statements about a list.

  Modelling decisions, all of them visible in the definitions below:
  \<^item> pixel coordinates (the fields of an Electron \<open>Rectangle\<close>, and \<open>targetX\<close>/\<open>targetY\<close>)
    are integers, as Electron requires of a \<open>Rectangle\<close>; \<open>Date.now()\<close> is an integer
    number of milliseconds;
  \<open>duration\<close>, \<open>from\<close> and \<open>to\<close> are rational numbers;
  \<^item> arithmetic is exact (rationals); the rounding of IEEE doubles and the sign of zero
    are not modelled. Division by zero is modelled as JavaScript has it (\<open>NaN\<close>, \<open>\<plusminus>Infinity\<close>)
    where the source can divide by zero, which is in \<open>fade\<close> only;
  \<^item> a step closure is a value of type \<open>session\<close> holding the variables the closure
    captured; a pending timer holds its identifier, its due time and that value;
  \<^item> an \<open>onComplete\<close> continuation is an opaque label; invoking it is recorded in the
    trace and does not call back into the engine;
  \<^item> the clock does not advance while a call or a timer callback runs: the two readings of
    \<open>Date.now()\<close> in a call are equal, and time passes between calls and callbacks.
\<close>

subsection \<open>JavaScript numbers where the source can leave the finite ones\<close>

datatype jsnum = Fin rat | PInf | NInf | NaN

fun js_neg :: "jsnum \<Rightarrow> jsnum" where
  "js_neg (Fin a) = Fin (- a)"
| "js_neg PInf = NInf"
| "js_neg NInf = PInf"
| "js_neg NaN = NaN"

fun js_add :: "jsnum \<Rightarrow> jsnum \<Rightarrow> jsnum" where
  "js_add NaN b = NaN"
| "js_add a NaN = NaN"
| "js_add (Fin a) (Fin b) = Fin (a + b)"
| "js_add PInf NInf = NaN"
| "js_add NInf PInf = NaN"
| "js_add PInf b = PInf"
| "js_add NInf b = NInf"
| "js_add a PInf = PInf"
| "js_add a NInf = NInf"

definition js_sub :: "jsnum \<Rightarrow> jsnum \<Rightarrow> jsnum" where
  "js_sub a b = js_add a (js_neg b)"

fun js_mul :: "jsnum \<Rightarrow> jsnum \<Rightarrow> jsnum" where
  "js_mul NaN b = NaN"
| "js_mul a NaN = NaN"
| "js_mul (Fin a) (Fin b) = Fin (a * b)"
| "js_mul (Fin a) b = (if a = 0 then NaN else if 0 < a then b else js_neg b)"
| "js_mul a (Fin b) = (if b = 0 then NaN else if 0 < b then a else js_neg a)"
| "js_mul PInf b = b"
| "js_mul NInf b = js_neg b"

text \<open>\<open>a / b\<close> for two finite numbers.\<close>

definition js_div :: "rat \<Rightarrow> rat \<Rightarrow> jsnum" where
  "js_div a b =
     (if b \<noteq> 0 then Fin (a / b)
      else if a = 0 then NaN
      else if 0 < a then PInf else NInf)"

text \<open>\<open>Math.min(1, v)\<close>, \<open>Math.pow(v, 3)\<close> and the comparison \<open>v < 1\<close>.\<close>

fun js_min1 :: "jsnum \<Rightarrow> jsnum" where
  "js_min1 (Fin a) = Fin (min 1 a)"
| "js_min1 PInf = Fin 1"
| "js_min1 NInf = NInf"
| "js_min1 NaN = NaN"

fun js_pow3 :: "jsnum \<Rightarrow> jsnum" where
  "js_pow3 (Fin a) = Fin (a ^ 3)"
| "js_pow3 PInf = PInf"
| "js_pow3 NInf = NInf"
| "js_pow3 NaN = NaN"

fun js_lt1 :: "jsnum \<Rightarrow> bool" where
  "js_lt1 (Fin a) = (a < 1)"
| "js_lt1 NInf = True"
| "js_lt1 PInf = False"
| "js_lt1 NaN = False"

text \<open>\<open>Math.round\<close>: to the nearest integer, a tie towards plus infinity.\<close>

definition js_round :: "rat \<Rightarrow> int" where
  "js_round q = \<lfloor>q + 1 / 2\<rfloor>"

subsection \<open>Windows, sessions and the state of the engine\<close>

type_synonym wid = nat
type_synonym timer_id = nat
type_synonym callback = nat

record rectangle =
  rect_x :: int
  rect_y :: int
  rect_width :: int
  rect_height :: int

text \<open>\<open>Partial<Rectangle>\<close>: a field is present or absent.\<close>

record partial_rectangle =
  part_x :: "int option"
  part_y :: "int option"
  part_width :: "int option"
  part_height :: "int option"

text \<open>The object spread \<open>{ ...b, ...p }\<close>.\<close>

definition merge_rect :: "rectangle \<Rightarrow> partial_rectangle \<Rightarrow> rectangle" where
  "merge_rect b p =
     \<lparr> rect_x = (case part_x p of None \<Rightarrow> rect_x b | Some v \<Rightarrow> v),
       rect_y = (case part_y p of None \<Rightarrow> rect_y b | Some v \<Rightarrow> v),
       rect_width = (case part_width p of None \<Rightarrow> rect_width b | Some v \<Rightarrow> v),
       rect_height = (case part_height p of None \<Rightarrow> rect_height b | Some v \<Rightarrow> v) \<rparr>"

text \<open>A rectangle passed where a \<open>Partial<Rectangle>\<close> is expected: all four fields present.\<close>

definition as_partial :: "rectangle \<Rightarrow> partial_rectangle" where
  "as_partial r =
     \<lparr> part_x = Some (rect_x r), part_y = Some (rect_y r),
       part_width = Some (rect_width r), part_height = Some (rect_height r) \<rparr>"

record window =
  win_bounds :: rectangle
  win_opacity :: jsnum
  win_destroyed :: bool

text \<open>
  The variables captured by the three \<open>step\<close> closures.
  \<open>Move\<close>: \<open>win, start, targetX, targetY, width, height, startTime, duration, onComplete\<close>
  (\<open>animateWindow\<close>);
  \<open>Fading\<close>: \<open>win, startOpacity, to, startTime, duration, onComplete\<close> (\<open>fade\<close>);
  \<open>Bounds\<close>: \<open>win, startBounds, finalTargetBounds, startTime, duration, onComplete\<close>
  (\<open>animateWindowBounds\<close>).
\<close>

datatype session =
  Move wid rectangle int int int int int rat "callback option"
| Fading wid jsnum rat int rat "callback option"
| Bounds wid rectangle rectangle int rat "callback option"

datatype event =
  SetBounds wid rectangle
| SetOpacity wid jsnum
| Completed callback

record engine =
  windows :: "wid \<Rightarrow> window"
  windowPool :: "string \<Rightarrow> wid option"
  clock :: int
  pending :: "(timer_id \<times> int \<times> session) list"
  next_timer :: timer_id
  animationTimers :: "(wid \<times> timer_id) list"
  isAnimating :: bool
  trace :: "event list"

text \<open>The constructor: no timers, \<open>isAnimating = false\<close>. The windows, the pool and the
  clock are the world the engine is created in.\<close>

definition new_engine :: "(string \<Rightarrow> wid option) \<Rightarrow> (wid \<Rightarrow> window) \<Rightarrow> int \<Rightarrow> engine" where
  "new_engine pool wins t0 =
     \<lparr> windows = wins, windowPool = pool, clock = t0, pending = [], next_timer = 0,
       animationTimers = [], isAnimating = False, trace = [] \<rparr>"

text \<open>\<open>this.animationDuration\<close>, set to 300 by the constructor and never assigned again.\<close>

definition animationDuration :: rat where
  "animationDuration = 300"

subsection \<open>The primitives the engine consumes\<close>

text \<open>\<open>setTimeout(step, 8)\<close> returns a fresh identifier; \<open>clearTimeout\<close> removes the
  callback whether or not it is already due.\<close>

definition setTimeout :: "session \<Rightarrow> engine \<Rightarrow> timer_id \<times> engine" where
  "setTimeout s st =
     (next_timer st,
      st\<lparr> pending := pending st @ [(next_timer st, clock st + 8, s)],
          next_timer := Suc (next_timer st) \<rparr>)"

definition clearTimeout :: "timer_id \<Rightarrow> engine \<Rightarrow> engine" where
  "clearTimeout t st = st\<lparr> pending := filter (\<lambda>e. fst e \<noteq> t) (pending st) \<rparr>"

definition setBounds :: "wid \<Rightarrow> rectangle \<Rightarrow> engine \<Rightarrow> engine" where
  "setBounds w r st =
     st\<lparr> windows := (windows st)(w := (windows st w)\<lparr> win_bounds := r \<rparr>),
         trace := trace st @ [SetBounds w r] \<rparr>"

definition setOpacity :: "wid \<Rightarrow> jsnum \<Rightarrow> engine \<Rightarrow> engine" where
  "setOpacity w v st =
     st\<lparr> windows := (windows st)(w := (windows st w)\<lparr> win_opacity := v \<rparr>),
         trace := trace st @ [SetOpacity w v] \<rparr>"

text \<open>\<open>if (onComplete) onComplete();\<close>\<close>

definition invoke :: "callback option \<Rightarrow> engine \<Rightarrow> engine" where
  "invoke cb st = (case cb of None \<Rightarrow> st | Some c \<Rightarrow> st\<lparr> trace := trace st @ [Completed c] \<rparr>)"

subsection \<open>The validity check\<close>

definition isWindowValid :: "wid option \<Rightarrow> engine \<Rightarrow> bool \<times> engine" where
  "isWindowValid win st =
     (case win of
        None \<Rightarrow> (False, st)
      | Some w \<Rightarrow>
          if win_destroyed (windows st w) then
            (False,
             case map_of (animationTimers st) w of
               None \<Rightarrow> st
             | Some t \<Rightarrow> (clearTimeout t st)\<lparr> animationTimers := AList.delete w (animationTimers st) \<rparr>)
          else (True, st))"

subsection \<open>Easing and interpolation\<close>

text \<open>\<open>options.duration || this.animationDuration\<close>: an absent duration and the falsy
  duration 0 are both replaced by the default.\<close>

definition eff_duration :: "rat option \<Rightarrow> rat" where
  "eff_duration d = (case d of None \<Rightarrow> animationDuration | Some v \<Rightarrow> if v = 0 then animationDuration else v)"

text \<open>\<open>Math.min(1, (Date.now() - startTime) / duration)\<close> in the two geometry modes, whose
  duration is never 0.\<close>

definition progress :: "int \<Rightarrow> rat \<Rightarrow> rat" where
  "progress elapsed d = min 1 (of_int elapsed / d)"

text \<open>\<open>1 - Math.pow(1 - p, 3)\<close>\<close>

definition eased :: "rat \<Rightarrow> rat" where
  "eased p = 1 - (1 - p) ^ 3"

text \<open>\<open>Math.round(s + (t - s) * eased)\<close>\<close>

definition interp :: "int \<Rightarrow> int \<Rightarrow> rat \<Rightarrow> int" where
  "interp s t e = js_round (of_int s + of_int (t - s) * e)"

text \<open>The same three expressions in \<open>fade\<close>, whose duration can be 0.\<close>

definition fade_progress :: "int \<Rightarrow> rat \<Rightarrow> jsnum" where
  "fade_progress elapsed d = js_min1 (js_div (of_int elapsed) d)"

definition js_eased :: "jsnum \<Rightarrow> jsnum" where
  "js_eased p = js_sub (Fin 1) (js_pow3 (js_sub (Fin 1) p))"

definition fade_value :: "jsnum \<Rightarrow> rat \<Rightarrow> jsnum \<Rightarrow> jsnum" where
  "fade_value s t e = js_add s (js_mul (js_sub (Fin t) s) e)"

subsection \<open>The step functions\<close>

definition animateWindow_step ::
  "wid \<Rightarrow> rectangle \<Rightarrow> int \<Rightarrow> int \<Rightarrow> int \<Rightarrow> int \<Rightarrow> int \<Rightarrow> rat \<Rightarrow> callback option \<Rightarrow> engine \<Rightarrow> engine" where
  "animateWindow_step w start targetX targetY wd ht startTime d onComplete st =
     (case isWindowValid (Some w) st of
        (False, st1) \<Rightarrow> invoke onComplete st1
      | (True, st1) \<Rightarrow>
          let p = progress (clock st1 - startTime) d;
              e = eased p;
              st2 = setBounds w \<lparr> rect_x = interp (rect_x start) targetX e,
                                  rect_y = interp (rect_y start) targetY e,
                                  rect_width = wd, rect_height = ht \<rparr> st1
          in if p < 1
             then snd (setTimeout (Move w start targetX targetY wd ht startTime d onComplete) st2)
             else invoke onComplete st2)"

definition fade_step ::
  "wid \<Rightarrow> jsnum \<Rightarrow> rat \<Rightarrow> int \<Rightarrow> rat \<Rightarrow> callback option \<Rightarrow> engine \<Rightarrow> engine" where
  "fade_step w startOpacity to startTime d onComplete st =
     (case isWindowValid (Some w) st of
        (False, st1) \<Rightarrow> invoke onComplete st1
      | (True, st1) \<Rightarrow>
          let p = fade_progress (clock st1 - startTime) d;
              e = js_eased p;
              st2 = setOpacity w (fade_value startOpacity to e) st1
          in if js_lt1 p
             then snd (setTimeout (Fading w startOpacity to startTime d onComplete) st2)
             else invoke onComplete (setOpacity w (Fin to) st2))"

definition animateWindowBounds_step ::
  "wid \<Rightarrow> rectangle \<Rightarrow> rectangle \<Rightarrow> int \<Rightarrow> rat \<Rightarrow> callback option \<Rightarrow> engine \<Rightarrow> engine" where
  "animateWindowBounds_step w startBounds finalTargetBounds startTime d onComplete st =
     (case isWindowValid (Some w) st of
        (False, st1) \<Rightarrow> invoke onComplete st1
      | (True, st1) \<Rightarrow>
          let p = progress (clock st1 - startTime) d;
              e = eased p;
              newBounds =
                \<lparr> rect_x = interp (rect_x startBounds) (rect_x finalTargetBounds) e,
                  rect_y = interp (rect_y startBounds) (rect_y finalTargetBounds) e,
                  rect_width = interp (rect_width startBounds) (rect_width finalTargetBounds) e,
                  rect_height = interp (rect_height startBounds) (rect_height finalTargetBounds) e \<rparr>;
              st2 = setBounds w newBounds st1
          in if p < 1
             then (case setTimeout (Bounds w startBounds finalTargetBounds startTime d onComplete) st2 of
                     (timerId, st3) \<Rightarrow>
                       st3\<lparr> animationTimers := AList.update w timerId (animationTimers st3) \<rparr>)
             else
               (let st3 = setBounds w finalTargetBounds st2;
                    st4 = st3\<lparr> animationTimers := AList.delete w (animationTimers st3) \<rparr>;
                    st5 = (if animationTimers st4 = [] then st4\<lparr> isAnimating := False \<rparr> else st4)
                in invoke onComplete st5))"

text \<open>Running the callback of a timer: the closure it holds.\<close>

fun run_step :: "session \<Rightarrow> engine \<Rightarrow> engine" where
  "run_step (Move w start tx ty wd ht t0 d cb) st = animateWindow_step w start tx ty wd ht t0 d cb st"
| "run_step (Fading w s0 to t0 d cb) st = fade_step w s0 to t0 d cb st"
| "run_step (Bounds w sb fb t0 d cb) st = animateWindowBounds_step w sb fb t0 d cb st"

subsection \<open>The operations\<close>

definition animateWindow ::
  "wid option \<Rightarrow> int \<Rightarrow> int \<Rightarrow> (int \<times> int) option \<Rightarrow> callback option \<Rightarrow> rat option \<Rightarrow> engine \<Rightarrow> engine" where
  "animateWindow win targetX targetY sizeOverride onComplete animDuration st =
     (case isWindowValid win st of
        (False, st1) \<Rightarrow> invoke onComplete st1
      | (True, st1) \<Rightarrow>
          let w = the win;
              start = win_bounds (windows st1 w);
              startTime = clock st1;
              d = eff_duration animDuration;
              (wd, ht) = (case sizeOverride of
                            None \<Rightarrow> (rect_width start, rect_height start)
                          | Some sz \<Rightarrow> sz)
          in animateWindow_step w start targetX targetY wd ht startTime d onComplete st1)"

text \<open>\<open>duration = 250\<close> is a default parameter: it replaces an absent duration only.\<close>

definition fade ::
  "wid option \<Rightarrow> rat option \<Rightarrow> rat \<Rightarrow> rat option \<Rightarrow> callback option \<Rightarrow> engine \<Rightarrow> engine" where
  "fade win from to dur onComplete st =
     (case isWindowValid win st of
        (False, st1) \<Rightarrow> invoke onComplete st1
      | (True, st1) \<Rightarrow>
          let w = the win;
              d = (case dur of None \<Rightarrow> 250 | Some v \<Rightarrow> v);
              startOpacity = (case from of None \<Rightarrow> win_opacity (windows st1 w) | Some f \<Rightarrow> Fin f);
              startTime = clock st1
          in fade_step w startOpacity to startTime d onComplete st1)"

definition animateWindowBounds ::
  "wid option \<Rightarrow> partial_rectangle \<Rightarrow> rat option \<Rightarrow> callback option \<Rightarrow> engine \<Rightarrow> engine" where
  "animateWindowBounds win targetBounds dur onComplete st =
     (let st0 = (case win of
                   None \<Rightarrow> st
                 | Some w \<Rightarrow> (case map_of (animationTimers st) w of
                               None \<Rightarrow> st
                             | Some t \<Rightarrow> clearTimeout t st))
      in case isWindowValid win st0 of
           (False, st1) \<Rightarrow> invoke onComplete st1
         | (True, st1) \<Rightarrow>
             let w = the win;
                 st2 = st1\<lparr> isAnimating := True \<rparr>;
                 startBounds = win_bounds (windows st2 w);
                 finalTargetBounds = merge_rect startBounds targetBounds;
                 startTime = clock st2;
                 d = eff_duration dur
             in animateWindowBounds_step w startBounds finalTargetBounds startTime d onComplete st2)"

text \<open>\<open>targetPosition\<close> has the optional fields \<open>x\<close> and \<open>y\<close> only.\<close>

definition animateWindowPosition ::
  "wid option \<Rightarrow> int option \<Rightarrow> int option \<Rightarrow> rat option \<Rightarrow> callback option \<Rightarrow> engine \<Rightarrow> engine" where
  "animateWindowPosition win tx ty dur onComplete st =
     (case isWindowValid win st of
        (False, st1) \<Rightarrow> invoke onComplete st1
      | (True, st1) \<Rightarrow>
          let currentBounds = win_bounds (windows st1 (the win));
              targetBounds = merge_rect currentBounds
                 \<lparr> part_x = tx, part_y = ty, part_width = None, part_height = None \<rparr>
          in animateWindowBounds win (as_partial targetBounds) dur onComplete st1)"

text \<open>\<open>animateLayout\<close>: one entry of the loop, then the loop. An entry whose target is
  absent, or whose window is not in the pool or destroyed, is skipped. The entry calls
  \<open>animateWindowBounds\<close> with no options.\<close>

definition animateLayout_entry :: "bool \<Rightarrow> string \<times> partial_rectangle option \<Rightarrow> engine \<Rightarrow> engine" where
  "animateLayout_entry animated entry st =
     (case (windowPool st (fst entry), snd entry) of
        (Some w, Some targetBounds) \<Rightarrow>
          if \<not> win_destroyed (windows st w) then
            (if animated then animateWindowBounds (Some w) targetBounds None None st
             else setBounds w (merge_rect (win_bounds (windows st w)) targetBounds) st)
          else st
      | _ \<Rightarrow> st)"

definition animateLayout :: "(string \<times> partial_rectangle option) list option \<Rightarrow> bool \<Rightarrow> engine \<Rightarrow> engine" where
  "animateLayout layout animated st =
     (case layout of
        None \<Rightarrow> st
      | Some entries \<Rightarrow> foldl (\<lambda>s e. animateLayout_entry animated e s) st entries)"

definition destroy :: "engine \<Rightarrow> engine" where
  "destroy st =
     (foldl (\<lambda>s timer. clearTimeout timer s) st (map snd (animationTimers st)))
       \<lparr> animationTimers := [], isAnimating := False \<rparr>"

subsection \<open>The engine in its environment\<close>

text \<open>
  What can happen to an engine: a caller invokes an operation, the clock advances, the
  runtime runs the callback of a pending timer that is due, or a window is destroyed.
\<close>

datatype action =
  AnimateWindow "wid option" int int "(int \<times> int) option" "callback option" "rat option"
| Fade "wid option" "rat option" rat "rat option" "callback option"
| AnimateWindowBounds "wid option" partial_rectangle "rat option" "callback option"
| AnimateWindowPosition "wid option" "int option" "int option" "rat option" "callback option"
| AnimateLayout "(string \<times> partial_rectangle option) list option" bool
| Destroy
| Tick nat
| Fire timer_id
| DestroyWindow wid

definition fire :: "timer_id \<Rightarrow> engine \<Rightarrow> engine" where
  "fire t st =
     (case find (\<lambda>e. fst e = t) (pending st) of
        None \<Rightarrow> st
      | Some (i, due, s) \<Rightarrow>
          if due \<le> clock st then run_step s (clearTimeout t st) else st)"

fun exec :: "action \<Rightarrow> engine \<Rightarrow> engine" where
  "exec (AnimateWindow win tx ty sz cb d) st = animateWindow win tx ty sz cb d st"
| "exec (Fade win from to d cb) st = fade win from to d cb st"
| "exec (AnimateWindowBounds win tb d cb) st = animateWindowBounds win tb d cb st"
| "exec (AnimateWindowPosition win tx ty d cb) st = animateWindowPosition win tx ty d cb st"
| "exec (AnimateLayout layout animated) st = animateLayout layout animated st"
| "exec Destroy st = destroy st"
| "exec (Tick n) st = st\<lparr> clock := clock st + int n \<rparr>"
| "exec (Fire t) st = fire t st"
| "exec (DestroyWindow w) st = st\<lparr> windows := (windows st)(w := (windows st w)\<lparr> win_destroyed := True \<rparr>) \<rparr>"

definition run :: "action list \<Rightarrow> engine \<Rightarrow> engine" where
  "run acts st = foldl (\<lambda>s a. exec a s) st acts"

subsection \<open>Vocabulary of the properties\<close>

text \<open>A window argument that is absent (\<open>null\<close>, \<open>undefined\<close>) or destroyed.\<close>

definition invalid_window :: "engine \<Rightarrow> wid option \<Rightarrow> bool" where
  "invalid_window st win = (case win of None \<Rightarrow> True | Some w \<Rightarrow> win_destroyed (windows st w))"

text \<open>What one invocation of an optional continuation adds to the trace.\<close>

definition completions :: "callback option \<Rightarrow> event list" where
  "completions cb = (case cb of None \<Rightarrow> [] | Some c \<Rightarrow> [Completed c])"

text \<open>The first statement of \<open>animateWindowBounds\<close>: the pending timer of the window, if the
  table has one, is cleared.\<close>

definition precancel :: "wid option \<Rightarrow> engine \<Rightarrow> engine" where
  "precancel win st =
     (case win of
        None \<Rightarrow> st
      | Some w \<Rightarrow> (case map_of (animationTimers st) w of None \<Rightarrow> st | Some t \<Rightarrow> clearTimeout t st))"

text \<open>A rectangle written with its four numbers.\<close>

abbreviation rect :: "int \<Rightarrow> int \<Rightarrow> int \<Rightarrow> int \<Rightarrow> rectangle" where
  "rect a b c d \<equiv> \<lparr> rect_x = a, rect_y = b, rect_width = c, rect_height = d \<rparr>"

text \<open>A world for the examples: every window is alive at \<open>{x: 0, y: 0, width: 100, height: 100}\<close>
  with opacity 1, the pool is empty and the clock reads 0.\<close>

definition example_window :: window where
  "example_window =
     \<lparr> win_bounds = (rect 0 0 100 100),
       win_opacity = Fin 1, win_destroyed = False \<rparr>"

definition example_engine :: engine where
  "example_engine = new_engine (\<lambda>_. None) (\<lambda>_. example_window) 0"

definition x_only :: "int \<Rightarrow> partial_rectangle" where
  "x_only v = \<lparr> part_x = Some v, part_y = None, part_width = None, part_height = None \<rparr>"

text \<open>The rectangle an \<open>animateWindowBounds\<close> step computes from the eased progress
  (\<open>newBounds\<close> in the source), and the one an \<open>animateWindow\<close> step computes.\<close>

definition newBounds :: "rectangle \<Rightarrow> rectangle \<Rightarrow> rat \<Rightarrow> rectangle" where
  "newBounds sb fb e =
     \<lparr> rect_x = interp (rect_x sb) (rect_x fb) e,
       rect_y = interp (rect_y sb) (rect_y fb) e,
       rect_width = interp (rect_width sb) (rect_width fb) e,
       rect_height = interp (rect_height sb) (rect_height fb) e \<rparr>"

definition movedBounds :: "rectangle \<Rightarrow> int \<Rightarrow> int \<Rightarrow> int \<Rightarrow> int \<Rightarrow> rat \<Rightarrow> rectangle" where
  "movedBounds start tx ty wd ht e =
     \<lparr> rect_x = interp (rect_x start) tx e, rect_y = interp (rect_y start) ty e,
       rect_width = wd, rect_height = ht \<rparr>"

text \<open>The sessions of the timer-table mode (\<open>animateWindowBounds\<close>), and their pending steps
  for a window.\<close>

fun is_bounds :: "session \<Rightarrow> bool" where
  "is_bounds (Bounds w sb fb t0 d cb) = True"
| "is_bounds (Move w start tx ty wd ht t0 d cb) = False"
| "is_bounds (Fading w s0 to t0 d cb) = False"

fun bounds_on :: "wid \<Rightarrow> session \<Rightarrow> bool" where
  "bounds_on w (Bounds w' sb fb t0 d cb) = (w' = w)"
| "bounds_on w (Move w' start tx ty wd ht t0 d cb) = False"
| "bounds_on w (Fading w' s0 to t0 d cb) = False"

definition bounds_pending :: "wid \<Rightarrow> engine \<Rightarrow> (timer_id \<times> int \<times> session) list" where
  "bounds_pending w st = filter (\<lambda>e. bounds_on w (snd (snd e))) (pending st)"

text \<open>
  The relation between the runtime's pending timers and the engine's table that every
  operation keeps: timer identifiers are fresh and distinct, the pending step of a
  timer-table session is the one the table records for its window, and an identifier in
  the table belongs to no other pending callback.
\<close>

definition timers_consistent :: "engine \<Rightarrow> bool" where
  "timers_consistent st \<longleftrightarrow>
     (\<forall>e \<in> set (pending st). fst e < next_timer st)
   \<and> distinct (map fst (pending st))
   \<and> (\<forall>e \<in> set (pending st). \<forall>w. bounds_on w (snd (snd e)) \<longrightarrow>
         map_of (animationTimers st) w = Some (fst e))
   \<and> distinct (map fst (animationTimers st))
   \<and> (\<forall>w t. map_of (animationTimers st) w = Some t \<longrightarrow>
         t < next_timer st \<and> (\<forall>e \<in> set (pending st). fst e = t \<longrightarrow> bounds_on w (snd (snd e))))"

text \<open>What a step, and what a call, appends to the trace.\<close>

definition step_events :: "session \<Rightarrow> engine \<Rightarrow> event list" where
  "step_events s st = drop (length (trace st)) (trace (run_step s st))"

text \<open>\<open>v1\<close> and then \<open>v2\<close> lie on the way from \<open>s\<close> to \<open>t\<close>, in this order: no move back
  and no overshoot.\<close>

definition toward :: "'a::linorder \<Rightarrow> 'a \<Rightarrow> 'a \<Rightarrow> 'a \<Rightarrow> bool" where
  "toward s t v1 v2 \<longleftrightarrow> (s \<le> v1 \<and> v1 \<le> v2 \<and> v2 \<le> t) \<or> (t \<le> v2 \<and> v2 \<le> v1 \<and> v1 \<le> s)"


text \<open>The rectangles, the opacities and the continuations in a list of events.\<close>

fun written_bounds :: "event list \<Rightarrow> rectangle list" where
  "written_bounds [] = []"
| "written_bounds (SetBounds w r # evs) = r # written_bounds evs"
| "written_bounds (SetOpacity w v # evs) = written_bounds evs"
| "written_bounds (Completed c # evs) = written_bounds evs"

fun written_opacities :: "event list \<Rightarrow> jsnum list" where
  "written_opacities [] = []"
| "written_opacities (SetBounds w r # evs) = written_opacities evs"
| "written_opacities (SetOpacity w v # evs) = v # written_opacities evs"
| "written_opacities (Completed c # evs) = written_opacities evs"

fun completed :: "event list \<Rightarrow> callback list" where
  "completed [] = []"
| "completed (SetBounds w r # evs) = completed evs"
| "completed (SetOpacity w v # evs) = completed evs"
| "completed (Completed c # evs) = c # completed evs"



text \<open>Between two states no old timer came back: the identifiers are handed out in
  increasing order and every pending timer of the later state was either pending in the
  earlier one or was created after it.\<close>

definition grows :: "engine \<Rightarrow> engine \<Rightarrow> bool" where
  "grows st st' \<longleftrightarrow>
     next_timer st \<le> next_timer st'
   \<and> (\<forall>e \<in> set (pending st'). e \<in> set (pending st) \<or> next_timer st \<le> fst e)"




definition superseded_run :: engine where
  "superseded_run =
     run [AnimateWindowBounds (Some 0) (x_only 100) None (Some 1),
          AnimateWindowBounds (Some 0) (x_only 200) None (Some 2),
          Tick 300, Fire 1] example_engine"

definition stale_flag_run :: engine where
  "stale_flag_run =
     run [AnimateWindowBounds (Some 0) (x_only 100) None None, DestroyWindow 0, Tick 8, Fire 0]
       example_engine"

definition fade_then_destroy :: engine where
  "fade_then_destroy = run [Fade (Some 0) (Some 1) 0 None (Some 1), Destroy] example_engine"

definition fade_after_destroy :: engine where
  "fade_after_destroy = run [Tick 250, Fire 0] fade_then_destroy"

definition two_move_chains :: engine where
  "two_move_chains =
     run [AnimateWindow (Some 0) 100 0 None None None, AnimateWindow (Some 0) 0 100 None None None]
       example_engine"

definition two_move_chains_later :: engine where
  "two_move_chains_later = run [Tick 8, Fire 0, Fire 1] two_move_chains"

definition position_scenario :: engine where
  "position_scenario =
     run [AnimateWindowPosition (Some 0) (Some 200) None (Some 300) None,
          Tick 8, Fire 0, Tick 292, Fire 1] example_engine"

section \<open>Properties\<close>

subsection \<open>How the primitives change the state\<close>

lemma trace_invoke: "trace (invoke cb st) = trace st @ completions cb"
  by (simp add: invoke_def completions_def split: option.splits)

lemma invoke_fields [simp]:
  "windows (invoke cb st) = windows st"
  "pending (invoke cb st) = pending st"
  "animationTimers (invoke cb st) = animationTimers st"
  "isAnimating (invoke cb st) = isAnimating st"
  "clock (invoke cb st) = clock st"
  "next_timer (invoke cb st) = next_timer st"
  "windowPool (invoke cb st) = windowPool st"
  by (simp_all add: invoke_def split: option.splits)

lemma clearTimeout_fields [simp]:
  "windows (clearTimeout t st) = windows st"
  "trace (clearTimeout t st) = trace st"
  "animationTimers (clearTimeout t st) = animationTimers st"
  "isAnimating (clearTimeout t st) = isAnimating st"
  "clock (clearTimeout t st) = clock st"
  "next_timer (clearTimeout t st) = next_timer st"
  "windowPool (clearTimeout t st) = windowPool st"
  "pending (clearTimeout t st) = filter (\<lambda>e. fst e \<noteq> t) (pending st)"
  by (simp_all add: clearTimeout_def)

lemma isWindowValid_invalid:
  "invalid_window st win \<Longrightarrow> fst (isWindowValid win st) = False"
  by (auto simp add: invalid_window_def isWindowValid_def split: option.splits)

lemma isWindowValid_fields [simp]:
  "windows (snd (isWindowValid win st)) = windows st"
  "trace (snd (isWindowValid win st)) = trace st"
  "clock (snd (isWindowValid win st)) = clock st"
  "next_timer (snd (isWindowValid win st)) = next_timer st"
  "isAnimating (snd (isWindowValid win st)) = isAnimating st"
  "windowPool (snd (isWindowValid win st)) = windowPool st"
  by (simp_all add: isWindowValid_def split: option.splits)

lemma isWindowValid_pending: "set (pending (snd (isWindowValid win st))) \<subseteq> set (pending st)"
  by (auto simp add: isWindowValid_def split: option.splits)

lemma isWindowValid_valid:
  "\<not> win_destroyed (windows st w) \<Longrightarrow> isWindowValid (Some w) st = (True, st)"
  by (simp add: isWindowValid_def)

lemma precancel_fields [simp]:
  "windows (precancel win st) = windows st"
  "trace (precancel win st) = trace st"
  "animationTimers (precancel win st) = animationTimers st"
  "isAnimating (precancel win st) = isAnimating st"
  "clock (precancel win st) = clock st"
  "next_timer (precancel win st) = next_timer st"
  "windowPool (precancel win st) = windowPool st"
  by (simp_all add: precancel_def split: option.splits)

lemma precancel_pending: "set (pending (precancel win st)) \<subseteq> set (pending st)"
  by (auto simp add: precancel_def split: option.splits)

text \<open>\<open>animateWindowBounds\<close> with its first statement named.\<close>

lemma animateWindowBounds_unfold:
  "animateWindowBounds win tb d cb st =
     (case isWindowValid win (precancel win st) of
        (False, st1) \<Rightarrow> invoke cb st1
      | (True, st1) \<Rightarrow>
          animateWindowBounds_step (the win) (win_bounds (windows st1 (the win)))
            (merge_rect (win_bounds (windows st1 (the win))) tb) (clock st1) (eff_duration d) cb
            (st1\<lparr> isAnimating := True \<rparr>))"
  by (simp add: animateWindowBounds_def precancel_def Let_def split: prod.splits bool.splits)

subsection \<open>Easing and interpolation\<close>

lemma js_round_of_int [simp]: "js_round (of_int n) = n"
  by (simp add: js_round_def floor_eq_iff)

lemma js_round_numeral [simp]:
  "js_round (numeral k) = numeral k"
  "js_round (- numeral k) = - numeral k"
  "js_round 0 = 0"
  "js_round 1 = 1"
  using js_round_of_int[of "numeral k"] js_round_of_int[of "- numeral k"]
    js_round_of_int[of 0] js_round_of_int[of 1]
  by simp_all


lemma eased_0 [simp]: "eased 0 = 0" by (simp add: eased_def)
lemma eased_1 [simp]: "eased 1 = 1" by (simp add: eased_def)



lemma interp_0 [simp]: "interp s t 0 = s" by (simp add: interp_def)
lemma interp_1 [simp]: "interp s t 1 = t" 
proof -
  have h: "rat_of_int s + rat_of_int (t - s) = rat_of_int t" by simp
  show ?thesis unfolding interp_def mult_1_right h by (rule js_round_of_int)
qed
lemma interp_same [simp]: "interp s s e = s" by (simp add: interp_def)



lemma progress_0 [simp]: "progress 0 d = 0" by (simp add: progress_def)




lemma progress_lt1: "0 < d \<Longrightarrow> of_int e < d \<Longrightarrow> progress e d < 1"
  by (simp add: progress_def)


lemma eff_duration_nonzero: "eff_duration dur \<noteq> 0"
  by (simp add: eff_duration_def animationDuration_def split: option.splits)

subsection \<open>One step of each mode\<close>

lemma bounds_step_invalid:
  "win_destroyed (windows st w) \<Longrightarrow>
     animateWindowBounds_step w sb fb t0 d cb st = invoke cb (snd (isWindowValid (Some w) st))"
  by (simp add: animateWindowBounds_step_def isWindowValid_def)

lemma bounds_step_continue:
  assumes "\<not> win_destroyed (windows st w)" "progress (clock st - t0) d < 1"
  shows "animateWindowBounds_step w sb fb t0 d cb st =
     st\<lparr> windows := (windows st)(w := (windows st w)\<lparr> win_bounds := newBounds sb fb (eased (progress (clock st - t0) d)) \<rparr>),
         trace := trace st @ [SetBounds w (newBounds sb fb (eased (progress (clock st - t0) d)))],
         pending := pending st @ [(next_timer st, clock st + 8, Bounds w sb fb t0 d cb)],
         next_timer := Suc (next_timer st),
         animationTimers := AList.update w (next_timer st) (animationTimers st) \<rparr>"
  using assms
  by (simp add: animateWindowBounds_step_def isWindowValid_valid Let_def setBounds_def setTimeout_def newBounds_def)

lemma bounds_step_complete:
  assumes "\<not> win_destroyed (windows st w)" "\<not> progress (clock st - t0) d < 1"
  shows "animateWindowBounds_step w sb fb t0 d cb st =
     invoke cb
      (st\<lparr> windows := (windows st)(w := (windows st w)\<lparr> win_bounds := fb \<rparr>),
          trace := trace st @ [SetBounds w (newBounds sb fb (eased (progress (clock st - t0) d))), SetBounds w fb],
          animationTimers := AList.delete w (animationTimers st),
          isAnimating := (if AList.delete w (animationTimers st) = [] then False else isAnimating st) \<rparr>)"
  using assms
  by (simp add: animateWindowBounds_step_def isWindowValid_valid Let_def setBounds_def newBounds_def)

lemma move_step_invalid:
  "win_destroyed (windows st w) \<Longrightarrow>
     animateWindow_step w start tx ty wd ht t0 d cb st = invoke cb (snd (isWindowValid (Some w) st))"
  by (simp add: animateWindow_step_def isWindowValid_def)

lemma move_step_continue:
  assumes "\<not> win_destroyed (windows st w)" "progress (clock st - t0) d < 1"
  shows "animateWindow_step w start tx ty wd ht t0 d cb st =
     st\<lparr> windows := (windows st)(w := (windows st w)\<lparr> win_bounds := movedBounds start tx ty wd ht (eased (progress (clock st - t0) d)) \<rparr>),
         trace := trace st @ [SetBounds w (movedBounds start tx ty wd ht (eased (progress (clock st - t0) d)))],
         pending := pending st @ [(next_timer st, clock st + 8, Move w start tx ty wd ht t0 d cb)],
         next_timer := Suc (next_timer st) \<rparr>"
  using assms
  by (simp add: animateWindow_step_def isWindowValid_valid Let_def setBounds_def setTimeout_def movedBounds_def)

lemma move_step_complete:
  assumes "\<not> win_destroyed (windows st w)" "\<not> progress (clock st - t0) d < 1"
  shows "animateWindow_step w start tx ty wd ht t0 d cb st =
     invoke cb
      (st\<lparr> windows := (windows st)(w := (windows st w)\<lparr> win_bounds := movedBounds start tx ty wd ht (eased (progress (clock st - t0) d)) \<rparr>),
          trace := trace st @ [SetBounds w (movedBounds start tx ty wd ht (eased (progress (clock st - t0) d)))] \<rparr>)"
  using assms
  by (simp add: animateWindow_step_def isWindowValid_valid Let_def setBounds_def movedBounds_def)

lemma fade_step_invalid:
  "win_destroyed (windows st w) \<Longrightarrow>
     fade_step w s0 to t0 d cb st = invoke cb (snd (isWindowValid (Some w) st))"
  by (simp add: fade_step_def isWindowValid_def)

lemma fade_step_continue:
  assumes "\<not> win_destroyed (windows st w)" "js_lt1 (fade_progress (clock st - t0) d)"
  shows "fade_step w s0 to t0 d cb st =
     st\<lparr> windows := (windows st)(w := (windows st w)\<lparr> win_opacity := fade_value s0 to (js_eased (fade_progress (clock st - t0) d)) \<rparr>),
         trace := trace st @ [SetOpacity w (fade_value s0 to (js_eased (fade_progress (clock st - t0) d)))],
         pending := pending st @ [(next_timer st, clock st + 8, Fading w s0 to t0 d cb)],
         next_timer := Suc (next_timer st) \<rparr>"
  using assms
  by (simp add: fade_step_def isWindowValid_valid Let_def setOpacity_def setTimeout_def)

lemma fade_step_complete:
  assumes "\<not> win_destroyed (windows st w)" "\<not> js_lt1 (fade_progress (clock st - t0) d)"
  shows "fade_step w s0 to t0 d cb st =
     invoke cb
      (st\<lparr> windows := (windows st)(w := (windows st w)\<lparr> win_opacity := Fin to \<rparr>),
          trace := trace st @ [SetOpacity w (fade_value s0 to (js_eased (fade_progress (clock st - t0) d))), SetOpacity w (Fin to)] \<rparr>)"
  using assms
  by (simp add: fade_step_def isWindowValid_valid Let_def setOpacity_def)

lemma newBounds_1 [simp]: "newBounds sb fb 1 = fb" by (simp add: newBounds_def)
lemma newBounds_0 [simp]: "newBounds sb fb 0 = sb" by (simp add: newBounds_def)
lemma movedBounds_1 [simp]: "movedBounds start tx ty wd ht 1 = \<lparr> rect_x = tx, rect_y = ty, rect_width = wd, rect_height = ht \<rparr>"
  by (simp add: movedBounds_def)


lemma js_eased_Fin [simp]: "js_eased (Fin p) = Fin (eased p)"
  by (simp add: js_eased_def js_sub_def eased_def)

lemma fade_value_Fin [simp]: "fade_value (Fin s) t (Fin e) = Fin (s + (t - s) * e)"
  by (simp add: fade_value_def js_sub_def)

subsection \<open>Operations on an absent or destroyed window\<close>

lemma animateWindow_invalid:
  "invalid_window st win \<Longrightarrow>
     animateWindow win tx ty sz cb d st = invoke cb (snd (isWindowValid win st))"
  using isWindowValid_invalid[of st win]
  by (cases "isWindowValid win st") (simp add: animateWindow_def)

lemma fade_invalid:
  "invalid_window st win \<Longrightarrow> fade win from to d cb st = invoke cb (snd (isWindowValid win st))"
  using isWindowValid_invalid[of st win]
  by (cases "isWindowValid win st") (simp add: fade_def)

lemma animateWindowPosition_invalid:
  "invalid_window st win \<Longrightarrow>
     animateWindowPosition win tx ty d cb st = invoke cb (snd (isWindowValid win st))"
  using isWindowValid_invalid[of st win]
  by (cases "isWindowValid win st") (simp add: animateWindowPosition_def)

lemma animateWindowBounds_invalid:
  assumes "invalid_window st win"
  shows "animateWindowBounds win tb d cb st = invoke cb (snd (isWindowValid win (precancel win st)))"
proof -
  from assms have "invalid_window (precancel win st) win"
    by (cases win) (simp_all add: invalid_window_def)
  then have "fst (isWindowValid win (precancel win st)) = False"
    by (rule isWindowValid_invalid)
  then show ?thesis
    by (cases "isWindowValid win (precancel win st)") (simp add: animateWindowBounds_unfold)
qed

subsection \<open>The timer table and the pending timers\<close>

lemma tc_new_engine: "timers_consistent (new_engine pool wins t0)"
  by (simp add: timers_consistent_def new_engine_def)

lemma tc_cong:
  "pending st' = pending st \<Longrightarrow> next_timer st' = next_timer st \<Longrightarrow>
   animationTimers st' = animationTimers st \<Longrightarrow> timers_consistent st' = timers_consistent st"
  by (simp add: timers_consistent_def)

lemma tc_invoke [simp]: "timers_consistent (invoke cb st) = timers_consistent st"
  by (rule tc_cong) simp_all

lemma tc_clearTimeout: "timers_consistent st \<Longrightarrow> timers_consistent (clearTimeout t st)"
  by (auto simp add: timers_consistent_def distinct_map_filter)


lemma tc_I:
  assumes "\<And>e. e \<in> set (pending st) \<Longrightarrow> fst e < next_timer st"
    and "distinct (map fst (pending st))"
    and "\<And>e w. e \<in> set (pending st) \<Longrightarrow> bounds_on w (snd (snd e)) \<Longrightarrow>
           map_of (animationTimers st) w = Some (fst e)"
    and "distinct (map fst (animationTimers st))"
    and "\<And>w t. map_of (animationTimers st) w = Some t \<Longrightarrow> t < next_timer st"
    and "\<And>w t e. map_of (animationTimers st) w = Some t \<Longrightarrow> e \<in> set (pending st) \<Longrightarrow>
           fst e = t \<Longrightarrow> bounds_on w (snd (snd e))"
  shows "timers_consistent st"
  unfolding timers_consistent_def using assms by blast

lemma tc_fresh: "timers_consistent st \<Longrightarrow> e \<in> set (pending st) \<Longrightarrow> fst e < next_timer st"
  unfolding timers_consistent_def by blast

lemma tc_distinct: "timers_consistent st \<Longrightarrow> distinct (map fst (pending st))"
  unfolding timers_consistent_def by blast

lemma tc_table:
  "timers_consistent st \<Longrightarrow> e \<in> set (pending st) \<Longrightarrow> bounds_on w (snd (snd e)) \<Longrightarrow>
     map_of (animationTimers st) w = Some (fst e)"
  unfolding timers_consistent_def by blast

lemma tc_keys: "timers_consistent st \<Longrightarrow> distinct (map fst (animationTimers st))"
  unfolding timers_consistent_def by blast

lemma tc_table_fresh:
  "timers_consistent st \<Longrightarrow> map_of (animationTimers st) w = Some t \<Longrightarrow> t < next_timer st"
  unfolding timers_consistent_def by blast

lemma tc_table_bounds:
  "timers_consistent st \<Longrightarrow> map_of (animationTimers st) w = Some t \<Longrightarrow>
     e \<in> set (pending st) \<Longrightarrow> fst e = t \<Longrightarrow> bounds_on w (snd (snd e))"
  unfolding timers_consistent_def by blast

text \<open>Dropping a window's entry together with its timer.\<close>

lemma tc_drop_entry:
  assumes tc: "timers_consistent st" and t: "map_of (animationTimers st) w = Some t"
  shows "timers_consistent ((clearTimeout t st)\<lparr> animationTimers := AList.delete w (animationTimers st) \<rparr>)"
proof (rule tc_I)
  fix e assume "e \<in> set (pending ((clearTimeout t st)\<lparr>animationTimers := AList.delete w (animationTimers st)\<rparr>))"
  then have "e \<in> set (pending st)" by simp
  then show "fst e < next_timer ((clearTimeout t st)\<lparr>animationTimers := AList.delete w (animationTimers st)\<rparr>)"
    using tc_fresh[OF tc] by simp
next
  show "distinct (map fst (pending ((clearTimeout t st)\<lparr>animationTimers := AList.delete w (animationTimers st)\<rparr>)))"
    using tc_distinct[OF tc] by (simp add: distinct_map_filter)
next
  fix e w'
  assume "e \<in> set (pending ((clearTimeout t st)\<lparr>animationTimers := AList.delete w (animationTimers st)\<rparr>))"
    and b: "bounds_on w' (snd (snd e))"
  then have e: "e \<in> set (pending st)" and ne: "fst e \<noteq> t" by simp_all
  from tc_table[OF tc e b] have m: "map_of (animationTimers st) w' = Some (fst e)" .
  with t ne have "w' \<noteq> w" by auto
  with m show "map_of (animationTimers ((clearTimeout t st)\<lparr>animationTimers := AList.delete w (animationTimers st)\<rparr>)) w' = Some (fst e)"
    by simp
next
  show "distinct (map fst (animationTimers ((clearTimeout t st)\<lparr>animationTimers := AList.delete w (animationTimers st)\<rparr>)))"
    using tc_keys[OF tc] by (simp add: AList.distinct_delete)
next
  fix w' t'
  assume "map_of (animationTimers ((clearTimeout t st)\<lparr>animationTimers := AList.delete w (animationTimers st)\<rparr>)) w' = Some t'"
  then have m: "map_of (animationTimers st) w' = Some t'"
    by (simp add: AList.delete_conv' split: if_splits)
  then show "t' < next_timer ((clearTimeout t st)\<lparr>animationTimers := AList.delete w (animationTimers st)\<rparr>)"
    using tc_table_fresh[OF tc] by simp
next
  fix w' t' e
  assume "map_of (animationTimers ((clearTimeout t st)\<lparr>animationTimers := AList.delete w (animationTimers st)\<rparr>)) w' = Some t'"
    and "e \<in> set (pending ((clearTimeout t st)\<lparr>animationTimers := AList.delete w (animationTimers st)\<rparr>))"
    and f: "fst e = t'"
  then have m: "map_of (animationTimers st) w' = Some t'" and e: "e \<in> set (pending st)"
    by (simp_all add: AList.delete_conv' split: if_splits)
  show "bounds_on w' (snd (snd e))" by (rule tc_table_bounds[OF tc m e f])
qed

lemma tc_isWindowValid:
  assumes "timers_consistent st" shows "timers_consistent (snd (isWindowValid win st))"
  using assms tc_drop_entry[OF assms]
  by (simp add: isWindowValid_def split: option.splits)

lemma bounds_on_is_bounds: "bounds_on w s \<Longrightarrow> is_bounds s"
  by (cases s) simp_all

lemma bounds_pending_empty_iff:
  "bounds_pending w st = [] \<longleftrightarrow> (\<forall>e \<in> set (pending st). \<not> bounds_on w (snd (snd e)))"
  by (simp add: bounds_pending_def filter_empty_conv)

lemma tc_next_unused: "timers_consistent st \<Longrightarrow> next_timer st \<notin> fst ` set (pending st)"
proof
  assume tc: "timers_consistent st" and "next_timer st \<in> fst ` set (pending st)"
  then obtain e where "e \<in> set (pending st)" "fst e = next_timer st" by auto
  with tc_fresh[OF tc, of e] show False by simp
qed

lemma tc_schedule_other:
  assumes tc: "timers_consistent st" and s: "\<not> is_bounds s"
    and p: "pending st' = pending st @ [(next_timer st, due, s)]"
    and n: "next_timer st' = Suc (next_timer st)"
    and a: "animationTimers st' = animationTimers st"
  shows "timers_consistent st'"
proof (rule tc_I)
  fix e assume "e \<in> set (pending st')"
  then have "e \<in> set (pending st) \<or> fst e = next_timer st" using p by auto
  then show "fst e < next_timer st'" using tc_fresh[OF tc, of e] n by (auto simp add: less_Suc_eq)
next
  show "distinct (map fst (pending st'))"
    using tc_distinct[OF tc] tc_next_unused[OF tc] p by simp
next
  fix e w assume "e \<in> set (pending st')" "bounds_on w (snd (snd e))"
  then have "e \<in> set (pending st)" using p s bounds_on_is_bounds by auto
  then show "map_of (animationTimers st') w = Some (fst e)"
    using tc_table[OF tc] \<open>bounds_on w (snd (snd e))\<close> a by simp
next
  show "distinct (map fst (animationTimers st'))" using tc_keys[OF tc] a by simp
next
  fix w t assume "map_of (animationTimers st') w = Some t"
  then show "t < next_timer st'" using tc_table_fresh[OF tc] a n by (simp add: less_Suc_eq)
next
  fix w t e assume m: "map_of (animationTimers st') w = Some t" and e: "e \<in> set (pending st')" and f: "fst e = t"
  from m a have m': "map_of (animationTimers st) w = Some t" by simp
  from tc_table_fresh[OF tc m'] have "t \<noteq> next_timer st" by simp
  with e p f have "e \<in> set (pending st)" by auto
  then show "bounds_on w (snd (snd e))" using tc_table_bounds[OF tc m'] f by simp
qed

lemma tc_schedule_bounds:
  assumes tc: "timers_consistent st" and none: "bounds_pending w st = []"
    and p: "pending st' = pending st @ [(next_timer st, due, Bounds w sb fb t0 d cb)]"
    and n: "next_timer st' = Suc (next_timer st)"
    and a: "animationTimers st' = AList.update w (next_timer st) (animationTimers st)"
  shows "timers_consistent st'"
proof (rule tc_I)
  fix e assume "e \<in> set (pending st')"
  then have "e \<in> set (pending st) \<or> fst e = next_timer st" using p by auto
  then show "fst e < next_timer st'" using tc_fresh[OF tc, of e] n by (auto simp add: less_Suc_eq)
next
  show "distinct (map fst (pending st'))"
    using tc_distinct[OF tc] tc_next_unused[OF tc] p by simp
next
  fix e w' assume e: "e \<in> set (pending st')" and b: "bounds_on w' (snd (snd e))"
  show "map_of (animationTimers st') w' = Some (fst e)"
  proof (cases "e \<in> set (pending st)")
    case True
    with none b have "w' \<noteq> w" by (auto simp add: bounds_pending_empty_iff)
    then show ?thesis using tc_table[OF tc True b] a by (simp add: AList.update_conv')
  next
    case False
    with e p have "e = (next_timer st, due, Bounds w sb fb t0 d cb)" by simp
    with b show ?thesis using a by (simp add: AList.update_conv')
  qed
next
  show "distinct (map fst (animationTimers st'))" using tc_keys[OF tc] a by (simp add: AList.distinct_update)
next
  fix w' t assume "map_of (animationTimers st') w' = Some t"
  then show "t < next_timer st'" using tc_table_fresh[OF tc] a n
    by (auto simp add: AList.update_conv' less_Suc_eq split: if_splits)
next
  fix w' t e assume m: "map_of (animationTimers st') w' = Some t" and e: "e \<in> set (pending st')" and f: "fst e = t"
  show "bounds_on w' (snd (snd e))"
  proof (cases "w' = w")
    case True
    with m a have "t = next_timer st" by (simp add: AList.update_conv')
    with e f p tc_fresh[OF tc, of e] have "e = (next_timer st, due, Bounds w sb fb t0 d cb)" by auto
    with True show ?thesis by simp
  next
    case False
    with m a have m': "map_of (animationTimers st) w' = Some t" by (simp add: AList.update_conv')
    from tc_table_fresh[OF tc m'] have "t \<noteq> next_timer st" by simp
    with e p f have "e \<in> set (pending st)" by auto
    then show ?thesis using tc_table_bounds[OF tc m'] f by simp
  qed
qed

lemma tc_delete_entry:
  assumes tc: "timers_consistent st" and none: "bounds_pending w st = []"
    and p: "pending st' = pending st"
    and n: "next_timer st' = next_timer st"
    and a: "animationTimers st' = AList.delete w (animationTimers st)"
  shows "timers_consistent st'"
proof (rule tc_I)
  fix e assume "e \<in> set (pending st')"
  then show "fst e < next_timer st'" using tc_fresh[OF tc] p n by simp
next
  show "distinct (map fst (pending st'))" using tc_distinct[OF tc] p by simp
next
  fix e w' assume e: "e \<in> set (pending st')" and b: "bounds_on w' (snd (snd e))"
  with p have e': "e \<in> set (pending st)" by simp
  with none b have "w' \<noteq> w" by (auto simp add: bounds_pending_empty_iff)
  then show "map_of (animationTimers st') w' = Some (fst e)" using tc_table[OF tc e' b] a by simp
next
  show "distinct (map fst (animationTimers st'))" using tc_keys[OF tc] a by (simp add: AList.distinct_delete)
next
  fix w' t assume "map_of (animationTimers st') w' = Some t"
  then show "t < next_timer st'" using tc_table_fresh[OF tc] a n
    by (auto simp add: AList.delete_conv' split: if_splits)
next
  fix w' t e assume m: "map_of (animationTimers st') w' = Some t" and e: "e \<in> set (pending st')" and f: "fst e = t"
  from m a have m': "map_of (animationTimers st) w' = Some t" by (simp add: AList.delete_conv' split: if_splits)
  show "bounds_on w' (snd (snd e))" using tc_table_bounds[OF tc m' _ f] e p by simp
qed

lemma tc_bounds_step:
  assumes tc: "timers_consistent st" and none: "bounds_pending w st = []"
  shows "timers_consistent (animateWindowBounds_step w sb fb t0 d cb st)"
proof (cases "win_destroyed (windows st w)")
  case True
  then show ?thesis using tc_isWindowValid[OF tc, of "Some w"] by (simp add: bounds_step_invalid)
next
  case False
  show ?thesis
  proof (cases "progress (clock st - t0) d < 1")
    case True
    show ?thesis
      by (rule tc_schedule_bounds[OF tc none]) (simp_all add: bounds_step_continue[OF False True])
  next
    case nlt: False
    show ?thesis
      unfolding bounds_step_complete[OF False nlt] tc_invoke
      by (rule tc_delete_entry[OF tc none]) simp_all
  qed
qed

lemma tc_move_step:
  assumes tc: "timers_consistent st"
  shows "timers_consistent (animateWindow_step w start tx ty wd ht t0 d cb st)"
proof (cases "win_destroyed (windows st w)")
  case True
  then show ?thesis using tc_isWindowValid[OF tc, of "Some w"] by (simp add: move_step_invalid)
next
  case False
  show ?thesis
  proof (cases "progress (clock st - t0) d < 1")
    case True
    show ?thesis
      by (rule tc_schedule_other[OF tc, where s = "Move w start tx ty wd ht t0 d cb"])
         (simp_all add: move_step_continue[OF False True])
  next
    case nlt: False
    show ?thesis
      unfolding move_step_complete[OF False nlt] tc_invoke using tc
      by (simp add: timers_consistent_def)
  qed
qed

lemma tc_fade_step:
  assumes tc: "timers_consistent st"
  shows "timers_consistent (fade_step w s0 to t0 d cb st)"
proof (cases "win_destroyed (windows st w)")
  case True
  then show ?thesis using tc_isWindowValid[OF tc, of "Some w"] by (simp add: fade_step_invalid)
next
  case False
  show ?thesis
  proof (cases "js_lt1 (fade_progress (clock st - t0) d)")
    case True
    show ?thesis
      by (rule tc_schedule_other[OF tc, where s = "Fading w s0 to t0 d cb"])
         (simp_all add: fade_step_continue[OF False True])
  next
    case nlt: False
    show ?thesis
      unfolding fade_step_complete[OF False nlt] tc_invoke using tc
      by (simp add: timers_consistent_def)
  qed
qed

lemma tc_precancel: "timers_consistent st \<Longrightarrow> timers_consistent (precancel win st)"
  by (simp add: precancel_def tc_clearTimeout split: option.splits)

lemma bounds_pending_precancel:
  assumes tc: "timers_consistent st"
  shows "bounds_pending w (precancel (Some w) st) = []"
proof (cases "map_of (animationTimers st) w")
  case None
  have "\<not> bounds_on w (snd (snd e))" if "e \<in> set (pending st)" for e
    using tc_table[OF tc that, of w] None by auto
  then show ?thesis using None by (simp add: precancel_def bounds_pending_empty_iff)
next
  case (Some t)
  have "fst e = t" if "e \<in> set (pending st)" "bounds_on w (snd (snd e))" for e
    using tc_table[OF tc that] Some by simp
  then show ?thesis using Some by (auto simp add: precancel_def bounds_pending_empty_iff)
qed

lemma bounds_pending_cong:
  "pending st' = pending st \<Longrightarrow> bounds_pending w st' = bounds_pending w st"
  by (simp add: bounds_pending_def)

lemma tc_animateWindowBounds:
  assumes tc: "timers_consistent st"
  shows "timers_consistent (animateWindowBounds win tb d cb st)"
proof (cases "invalid_window st win")
  case True
  then show ?thesis
    using tc_isWindowValid[OF tc_precancel[OF tc], of win win]
    by (simp add: animateWindowBounds_invalid)
next
  case False
  then obtain w where w: "win = Some w" and alive: "\<not> win_destroyed (windows st w)"
    by (cases win) (simp_all add: invalid_window_def)
  have v: "isWindowValid (Some w) (precancel (Some w) st) = (True, precancel (Some w) st)"
    using alive by (simp add: isWindowValid_valid)
  have tc1: "timers_consistent ((precancel (Some w) st)\<lparr> isAnimating := True \<rparr>)"
    using tc_precancel[OF tc, of "Some w"] by (simp add: timers_consistent_def)
  have none: "bounds_pending w ((precancel (Some w) st)\<lparr> isAnimating := True \<rparr>) = []"
    using bounds_pending_precancel[OF tc, of w] by (simp add: bounds_pending_def)
  show ?thesis
    unfolding w animateWindowBounds_unfold v
    using tc_bounds_step[OF tc1 none] by simp
qed

lemma tc_animateWindow:
  assumes tc: "timers_consistent st"
  shows "timers_consistent (animateWindow win tx ty sz cb d st)"
proof (cases "invalid_window st win")
  case True
  then show ?thesis using tc_isWindowValid[OF tc, of win] by (simp add: animateWindow_invalid)
next
  case False
  then obtain w where w: "win = Some w" and alive: "\<not> win_destroyed (windows st w)"
    by (cases win) (simp_all add: invalid_window_def)
  show ?thesis
    unfolding w animateWindow_def isWindowValid_valid[OF alive]
    using tc_move_step[OF tc] by (simp add: Let_def split: prod.splits)
qed

lemma tc_fade:
  assumes tc: "timers_consistent st"
  shows "timers_consistent (fade win from to d cb st)"
proof (cases "invalid_window st win")
  case True
  then show ?thesis using tc_isWindowValid[OF tc, of win] by (simp add: fade_invalid)
next
  case False
  then obtain w where w: "win = Some w" and alive: "\<not> win_destroyed (windows st w)"
    by (cases win) (simp_all add: invalid_window_def)
  show ?thesis
    unfolding w fade_def isWindowValid_valid[OF alive]
    using tc_fade_step[OF tc] by (simp add: Let_def)
qed

lemma tc_animateWindowPosition:
  assumes tc: "timers_consistent st"
  shows "timers_consistent (animateWindowPosition win tx ty d cb st)"
proof (cases "invalid_window st win")
  case True
  then show ?thesis using tc_isWindowValid[OF tc, of win] by (simp add: animateWindowPosition_invalid)
next
  case False
  then obtain w where w: "win = Some w" and alive: "\<not> win_destroyed (windows st w)"
    by (cases win) (simp_all add: invalid_window_def)
  show ?thesis
    unfolding w animateWindowPosition_def isWindowValid_valid[OF alive]
    using tc_animateWindowBounds[OF tc] by (simp add: Let_def)
qed

lemma tc_setBounds [simp]: "timers_consistent (setBounds w r st) = timers_consistent st"
  by (rule tc_cong) (simp_all add: setBounds_def)

lemma tc_animateLayout_entry:
  "timers_consistent st \<Longrightarrow> timers_consistent (animateLayout_entry animated entry st)"
  by (simp add: animateLayout_entry_def tc_animateWindowBounds split: option.splits)

lemma tc_animateLayout_loop:
  "timers_consistent st \<Longrightarrow>
     timers_consistent (foldl (\<lambda>s e. animateLayout_entry animated e s) st entries)"
  by (induction entries arbitrary: st) (simp_all add: tc_animateLayout_entry)

lemma tc_animateLayout:
  "timers_consistent st \<Longrightarrow> timers_consistent (animateLayout layout animated st)"
  by (simp add: animateLayout_def tc_animateLayout_loop split: option.splits)

text \<open>\<open>destroy\<close>: the loop clears exactly the timers of the table.\<close>

lemma clear_all_fields [simp]:
  "windows (foldl (\<lambda>s timer. clearTimeout timer s) st ts) = windows st"
  "trace (foldl (\<lambda>s timer. clearTimeout timer s) st ts) = trace st"
  "clock (foldl (\<lambda>s timer. clearTimeout timer s) st ts) = clock st"
  "next_timer (foldl (\<lambda>s timer. clearTimeout timer s) st ts) = next_timer st"
  "windowPool (foldl (\<lambda>s timer. clearTimeout timer s) st ts) = windowPool st"
  by (induction ts arbitrary: st) simp_all

lemma clear_all_pending:
  "pending (foldl (\<lambda>s timer. clearTimeout timer s) st ts) = filter (\<lambda>e. fst e \<notin> set ts) (pending st)"
proof (induction ts arbitrary: st)
  case Nil
  show ?case by simp
next
  case (Cons a ts)
  have "filter (\<lambda>e. fst e \<notin> set ts) (filter (\<lambda>e. fst e \<noteq> a) (pending st))
      = filter (\<lambda>e. fst e \<notin> set (a # ts)) (pending st)"
    by (simp add: conj_commute)
  then show ?case using Cons.IH[of "clearTimeout a st"] by simp
qed

lemma destroy_fields [simp]:
  "windows (destroy st) = windows st"
  "trace (destroy st) = trace st"
  "clock (destroy st) = clock st"
  "next_timer (destroy st) = next_timer st"
  "windowPool (destroy st) = windowPool st"
  "animationTimers (destroy st) = []"
  "isAnimating (destroy st) = False"
  "pending (destroy st) = filter (\<lambda>e. fst e \<notin> snd ` set (animationTimers st)) (pending st)"
  by (simp_all add: destroy_def clear_all_pending)

lemma destroy_clears_bounds:
  assumes tc: "timers_consistent st" and e: "e \<in> set (pending (destroy st))"
  shows "\<not> bounds_on w (snd (snd e))"
proof
  assume b: "bounds_on w (snd (snd e))"
  from e have e': "e \<in> set (pending st)" and n: "fst e \<notin> snd ` set (animationTimers st)" by simp_all
  from tc_table[OF tc e' b] have "(w, fst e) \<in> set (animationTimers st)" by (rule map_of_SomeD)
  with n show False by force
qed

lemma tc_destroy:
  assumes tc: "timers_consistent st"
  shows "timers_consistent (destroy st)"
proof (rule tc_I)
  fix e assume "e \<in> set (pending (destroy st))"
  then show "fst e < next_timer (destroy st)" using tc_fresh[OF tc, of e] by simp
next
  show "distinct (map fst (pending (destroy st)))" using tc_distinct[OF tc] by (simp add: distinct_map_filter)
next
  fix e w assume "e \<in> set (pending (destroy st))" "bounds_on w (snd (snd e))"
  then show "map_of (animationTimers (destroy st)) w = Some (fst e)"
    using destroy_clears_bounds[OF tc] by blast
qed simp_all

lemma destroy_keeps_others:
  assumes tc: "timers_consistent st" and e: "e \<in> set (pending st)" and nb: "\<not> is_bounds (snd (snd e))"
  shows "e \<in> set (pending (destroy st))"
proof -
  have "fst e \<notin> snd ` set (animationTimers st)"
  proof
    assume "fst e \<in> snd ` set (animationTimers st)"
    then obtain w where "(w, fst e) \<in> set (animationTimers st)" by force
    with tc_keys[OF tc] have "map_of (animationTimers st) w = Some (fst e)" by simp
    from tc_table_bounds[OF tc this e] nb bounds_on_is_bounds show False by blast
  qed
  with e show ?thesis by simp
qed

lemma tc_run_step:
  assumes tc: "timers_consistent st" and none: "\<And>w. bounds_on w s \<Longrightarrow> bounds_pending w st = []"
  shows "timers_consistent (run_step s st)"
proof (cases s)
  case (Move w start tx ty wd ht t0 d cb)
  then show ?thesis using tc_move_step[OF tc] by simp
next
  case (Fading w s0 to t0 d cb)
  then show ?thesis using tc_fade_step[OF tc] by simp
next
  case (Bounds w sb fb t0 d cb)
  then show ?thesis using tc_bounds_step[OF tc none[of w]] by simp
qed

lemma find_id:
  "find (\<lambda>e. fst e = t) xs = Some e \<Longrightarrow> e \<in> set xs \<and> fst e = t"
  by (auto simp add: find_Some_iff)

lemma tc_fire:
  assumes tc: "timers_consistent st"
  shows "timers_consistent (fire t st)"
proof (cases "find (\<lambda>e. fst e = t) (pending st)")
  case None
  then show ?thesis using tc by (simp add: fire_def)
next
  case (Some e)
  obtain i due s where e: "e = (i, due, s)" by (cases e)
  from find_id[OF Some] e have mem: "(i, due, s) \<in> set (pending st)" and i: "i = t" by auto
  have none: "bounds_pending w (clearTimeout t st) = []" if b: "bounds_on w s" for w
  proof -
    from tc_table[OF tc mem] b i have m: "map_of (animationTimers st) w = Some t" by simp
    have "fst e' = t" if "e' \<in> set (pending st)" "bounds_on w (snd (snd e'))" for e'
      using tc_table[OF tc that] m by simp
    then show ?thesis by (auto simp add: bounds_pending_empty_iff)
  qed
  show ?thesis
    using Some e tc tc_run_step[OF tc_clearTimeout[OF tc, of t] none]
    by (simp add: fire_def)
qed

lemma tc_exec: "timers_consistent st \<Longrightarrow> timers_consistent (exec a st)"
proof (cases a)
  case (Tick n)
  assume "timers_consistent st"
  then show ?thesis using Tick by (simp add: timers_consistent_def)
next
  case (DestroyWindow w)
  assume "timers_consistent st"
  then show ?thesis using DestroyWindow by (simp add: timers_consistent_def)
qed (simp_all add: tc_animateWindow tc_fade tc_animateWindowBounds tc_animateWindowPosition
      tc_animateLayout tc_destroy tc_fire)

lemma run_Cons [simp]: "run (a # acts) st = run acts (exec a st)"
  by (simp add: run_def)

lemma run_Nil [simp]: "run [] st = st"
  by (simp add: run_def)

lemma tc_run: "timers_consistent st \<Longrightarrow> timers_consistent (run acts st)"
  by (induction acts arbitrary: st) (simp_all add: tc_exec)

lemma tc_reachable: "timers_consistent (run acts (new_engine pool wins t0))"
  by (rule tc_run[OF tc_new_engine])

lemma at_most_one:
  assumes "distinct (map f xs)" and "\<And>x. x \<in> set xs \<Longrightarrow> f x = a"
  shows "length xs \<le> 1"
proof (cases xs)
  case Nil then show ?thesis by simp
next
  case (Cons x ys)
  show ?thesis
  proof (cases ys)
    case Nil with Cons show ?thesis by simp
  next
    case (Cons y zs)
    with \<open>xs = x # ys\<close> assms(2)[of x] assms(2)[of y] assms(1) show ?thesis by simp
  qed
qed

lemma tc_bounds_pending_le1:
  assumes tc: "timers_consistent st"
  shows "length (bounds_pending w st) \<le> 1"
proof (cases "map_of (animationTimers st) w")
  case None
  have "\<not> bounds_on w (snd (snd e))" if "e \<in> set (pending st)" for e
    using tc_table[OF tc that, of w] None by auto
  then have "bounds_pending w st = []" by (simp add: bounds_pending_empty_iff)
  then show ?thesis by simp
next
  case (Some t)
  have "distinct (map fst (bounds_pending w st))"
    using tc_distinct[OF tc] by (simp add: bounds_pending_def distinct_map_filter)
  moreover have "fst e = t" if "e \<in> set (bounds_pending w st)" for e
    using tc_table[OF tc, of e w] that Some by (simp add: bounds_pending_def)
  ultimately show ?thesis by (rule at_most_one)
qed

subsection \<open>What the steps and the calls write\<close>

lemmas engine_eval =
  example_engine_def example_window_def x_only_def new_engine_def
  animateWindow_def fade_def animateWindowBounds_def animateWindowPosition_def destroy_def fire_def
  animateWindow_step_def fade_step_def animateWindowBounds_step_def
  isWindowValid_def setBounds_def setOpacity_def setTimeout_def clearTimeout_def invoke_def
  eff_duration_def animationDuration_def merge_rect_def as_partial_def Let_def



lemma step_events_bounds_continue:
  assumes "\<not> win_destroyed (windows st w)" "progress (clock st - t0) d < 1"
  shows "step_events (Bounds w sb fb t0 d cb) st = [SetBounds w (newBounds sb fb (eased (progress (clock st - t0) d)))]"
  using assms by (simp add: step_events_def bounds_step_continue)

lemma step_events_bounds_complete:
  assumes "\<not> win_destroyed (windows st w)" "\<not> progress (clock st - t0) d < 1"
  shows "step_events (Bounds w sb fb t0 d cb) st =
     [SetBounds w (newBounds sb fb (eased (progress (clock st - t0) d))), SetBounds w fb] @ completions cb"
  using assms by (simp add: step_events_def bounds_step_complete trace_invoke)










lemma toward_refl_target [simp]: "toward s t t t"
  by (auto simp add: toward_def)

lemma written_completions [simp]:
  "written_bounds (completions cb) = []" "written_opacities (completions cb) = []"
  by (simp_all add: completions_def split: option.splits)

lemma written_append_completions [simp]:
  "written_bounds (evs @ completions cb) = written_bounds evs"
  "written_opacities (evs @ completions cb) = written_opacities evs"
  by (induction evs rule: written_bounds.induct) simp_all






lemma js_mul_NaN [simp]: "js_mul a NaN = NaN" by (cases a) simp_all
lemma js_add_NaN [simp]: "js_add a NaN = NaN" by (cases a) simp_all
lemma js_eased_NaN [simp]: "js_eased NaN = NaN" by (simp add: js_eased_def js_sub_def)
lemma fade_value_NaN [simp]: "fade_value s t NaN = NaN" by (simp add: fade_value_def)
lemma fade_progress_0_0 [simp]: "fade_progress 0 0 = NaN" by (simp add: fade_progress_def js_div_def)




lemma animateWindowBounds_valid:
  assumes "\<not> win_destroyed (windows st w)"
  shows "animateWindowBounds (Some w) tb dur cb st =
     run_step (Bounds w (win_bounds (windows st w)) (merge_rect (win_bounds (windows st w)) tb) (clock st)
                 (eff_duration dur) cb)
       ((precancel (Some w) st)\<lparr> isAnimating := True \<rparr>)"
  using assms by (simp add: animateWindowBounds_unfold isWindowValid_valid)



lemma merge_as_partial [simp]: "merge_rect b (as_partial r) = r"
  by (simp add: merge_rect_def as_partial_def)

lemma animateWindowPosition_valid:
  assumes "\<not> win_destroyed (windows st w)"
  shows "animateWindowPosition (Some w) tx ty dur cb st =
     run_step (Bounds w (win_bounds (windows st w))
                 (merge_rect (win_bounds (windows st w))
                    \<lparr> part_x = tx, part_y = ty, part_width = None, part_height = None \<rparr>)
                 (clock st) (eff_duration dur) cb)
       ((precancel (Some w) st)\<lparr> isAnimating := True \<rparr>)"
  using assms
  by (simp add: animateWindowPosition_def isWindowValid_valid Let_def animateWindowBounds_valid)

lemma bounds_written_subset:
  assumes "\<not> win_destroyed (windows st w)"
  shows "set (written_bounds (step_events (Bounds w sb fb t0 d cb) st))
           \<subseteq> {newBounds sb fb (eased (progress (clock st - t0) d)), fb}"
proof (cases "progress (clock st - t0) d < 1")
  case True
  then show ?thesis using assms by (simp add: step_events_bounds_continue)
next
  case False
  then show ?thesis using step_events_bounds_complete[OF assms False, of sb fb cb] by simp
qed

lemma merge_position_fields:
  "rect_width (merge_rect b \<lparr> part_x = tx, part_y = ty, part_width = None, part_height = None \<rparr>) = rect_width b"
  "rect_height (merge_rect b \<lparr> part_x = tx, part_y = ty, part_width = None, part_height = None \<rparr>) = rect_height b"
  "rect_x (merge_rect b \<lparr> part_x = None, part_y = ty, part_width = None, part_height = None \<rparr>) = rect_x b"
  "rect_y (merge_rect b \<lparr> part_x = tx, part_y = None, part_width = None, part_height = None \<rparr>) = rect_y b"
  by (simp_all add: merge_rect_def)

lemma completed_completions [simp]: "completed (completions cb) = (case cb of None \<Rightarrow> [] | Some c \<Rightarrow> [c])"
  by (simp add: completions_def split: option.splits)



lemma progress_300_300: "progress 300 300 = 1" by (simp add: progress_def)

lemma superseded_run_eval:
  "superseded_run =
     \<lparr> windows = (\<lambda>_. example_window)(0 := example_window\<lparr> win_bounds := (rect 200 0 100 100) \<rparr>),
       windowPool = (\<lambda>_. None), clock = 300, pending = [], next_timer = 2,
       animationTimers = [], isAnimating = False,
       trace = [SetBounds 0 (rect 0 0 100 100),
                SetBounds 0 (rect 0 0 100 100),
                SetBounds 0 (rect 200 0 100 100),
                SetBounds 0 (rect 200 0 100 100),
                Completed 2] \<rparr>"
  unfolding superseded_run_def
  by (simp add: engine_eval progress_300_300)

lemma stale_flag_run_eval:
  "animationTimers stale_flag_run = [] \<and> isAnimating stale_flag_run = True \<and> pending stale_flag_run = []
   \<and> trace stale_flag_run = [SetBounds 0 (rect 0 0 100 100)]"
  unfolding stale_flag_run_def
  by (simp add: engine_eval)

lemma fade_progress_0 [simp]: "d \<noteq> 0 \<Longrightarrow> fade_progress 0 d = Fin 0"
  by (simp add: fade_progress_def js_div_def)

lemma fade_then_destroy_eval:
  "fade_then_destroy =
     \<lparr> windows = (\<lambda>_. example_window), windowPool = (\<lambda>_. None), clock = 0,
       pending = [(0, 8, Fading 0 (Fin 1) 0 0 250 (Some 1))], next_timer = 1,
       animationTimers = [], isAnimating = False,
       trace = [SetOpacity 0 (Fin 1)] \<rparr>"
  unfolding fade_then_destroy_def
  by (simp add: engine_eval fun_upd_idem)

lemma fade_progress_250: "fade_progress 250 250 = Fin 1" by (simp add: fade_progress_def js_div_def)

lemma fade_after_destroy_eval:
  "trace fade_after_destroy = [SetOpacity 0 (Fin 1), SetOpacity 0 (Fin 0), SetOpacity 0 (Fin 0), Completed 1]
   \<and> win_opacity (windows fade_after_destroy 0) = Fin 0"
  unfolding fade_after_destroy_def fade_then_destroy_eval
  by (simp add: engine_eval fade_progress_250)

lemma two_move_chains_eval:
  "two_move_chains =
     \<lparr> windows = (\<lambda>_. example_window), windowPool = (\<lambda>_. None), clock = 0,
       pending = [(0, 8, Move 0 (rect 0 0 100 100) 100 0 100 100 0 300 None),
                  (1, 8, Move 0 (rect 0 0 100 100) 0 100 100 100 0 300 None)],
       next_timer = 2, animationTimers = [], isAnimating = False,
       trace = [SetBounds 0 (rect 0 0 100 100),
                SetBounds 0 (rect 0 0 100 100)] \<rparr>"
  unfolding two_move_chains_def
  by (simp add: engine_eval fun_upd_idem)

lemma progress_8_300_lt: "progress 8 300 < 1" by (simp add: progress_def)
lemma interp_0_100_at_8: "interp 0 100 (eased (progress 8 300)) = 8"
  by (simp add: interp_def eased_def progress_def js_round_def floor_eq_iff power3_eq_cube)
lemma interp_0_200_at_8: "interp 0 200 (eased (progress 8 300)) = 16"
  by (simp add: interp_def eased_def progress_def js_round_def floor_eq_iff power3_eq_cube)

lemma two_move_chains_later_eval:
  "trace two_move_chains_later =
     [SetBounds 0 (rect 0 0 100 100),
      SetBounds 0 (rect 0 0 100 100),
      SetBounds 0 (rect 8 0 100 100),
      SetBounds 0 (rect 0 8 100 100)]
   \<and> map (snd \<circ> snd) (pending two_move_chains_later) =
     [Move 0 (rect 0 0 100 100) 100 0 100 100 0 300 None,
      Move 0 (rect 0 0 100 100) 0 100 100 100 0 300 None]"
  unfolding two_move_chains_later_def two_move_chains_eval
  by (simp add: engine_eval progress_8_300_lt interp_0_100_at_8)

lemma position_scenario_eval:
  "trace position_scenario =
     [SetBounds 0 (rect 0 0 100 100),
      SetBounds 0 (rect 16 0 100 100),
      SetBounds 0 (rect 200 0 100 100),
      SetBounds 0 (rect 200 0 100 100)]
   \<and> win_bounds (windows position_scenario 0) = (rect 200 0 100 100)
   \<and> pending position_scenario = []"
  unfolding position_scenario_def
  by (simp add: engine_eval progress_8_300_lt interp_0_200_at_8 progress_300_300)

lemma grows_refl [simp]: "grows st st"
  by (simp add: grows_def)





lemma grows_invoke_iff [simp]: "grows st (invoke cb st') = grows st st'"
  by (simp add: grows_def)






















subsection \<open>A chain left to run\<close>












section \<open>The claims\<close>









text \<open>
  C4. Each of \<open>animateWindow\<close>, \<open>fade\<close>, \<open>animateWindowBounds\<close> and
  \<open>animateWindowPosition\<close>, called with a window that is absent or destroyed, invokes
  \<open>onComplete\<close> (when supplied) exactly once before it returns and calls no setter: the
  call adds to the trace the one completion and nothing else, leaves every window as it
  was, and schedules no step.
\<close>

theorem invalid_window_short_circuit:
  assumes "invalid_window st win"
  shows "trace (animateWindow win tx ty sz cb d st) = trace st @ completions cb
       \<and> windows (animateWindow win tx ty sz cb d st) = windows st
       \<and> set (pending (animateWindow win tx ty sz cb d st)) \<subseteq> set (pending st)
       \<and> trace (fade win from to d cb st) = trace st @ completions cb
       \<and> windows (fade win from to d cb st) = windows st
       \<and> set (pending (fade win from to d cb st)) \<subseteq> set (pending st)
       \<and> trace (animateWindowBounds win tb d cb st) = trace st @ completions cb
       \<and> windows (animateWindowBounds win tb d cb st) = windows st
       \<and> set (pending (animateWindowBounds win tb d cb st)) \<subseteq> set (pending st)
       \<and> trace (animateWindowPosition win px py d cb st) = trace st @ completions cb
       \<and> windows (animateWindowPosition win px py d cb st) = windows st
       \<and> set (pending (animateWindowPosition win px py d cb st)) \<subseteq> set (pending st)"
  using assms isWindowValid_pending[of win st] isWindowValid_pending[of win "precancel win st"]
    precancel_pending[of win st]
  by (simp add: animateWindow_invalid fade_invalid animateWindowBounds_invalid
      animateWindowPosition_invalid trace_invoke)

theorem invalid_window_short_circuit_witness:
  "invalid_window (exec (DestroyWindow 0) example_engine) (Some 0)
   \<and> trace (animateWindow (Some 0) 50 60 None (Some 7) None (exec (DestroyWindow 0) example_engine)) = [Completed 7]
   \<and> trace (fade (Some 0) None 0 None (Some 7) (exec (DestroyWindow 0) example_engine)) = [Completed 7]
   \<and> trace (animateWindowBounds (Some 0) (x_only 200) None (Some 7) (exec (DestroyWindow 0) example_engine)) = [Completed 7]
   \<and> trace (animateWindowPosition (Some 0) (Some 200) None None (Some 7) (exec (DestroyWindow 0) example_engine)) = [Completed 7]
   \<and> trace (animateWindowBounds None (x_only 200) None (Some 7) example_engine) = [Completed 7]"
  using invalid_window_short_circuit[of "exec (DestroyWindow 0) example_engine" "Some 0"
      50 60 None "Some 7" None None 0 "x_only 200" "Some 200" None]
    invalid_window_short_circuit[of example_engine None
      50 60 None "Some 7" None None 0 "x_only 200" "Some 200" None]
  by (simp add: invalid_window_def completions_def example_engine_def new_engine_def)

text \<open>
  C5, as the code has it. In every state the engine can reach, each window has at most one
  pending step of the timer-table mode (\<open>animateWindowBounds\<close>, and through it
  \<open>animateWindowPosition\<close> and \<open>animateLayout\<close>), and that step is the timer the table
  records for the window. The steps of \<open>animateWindow\<close> and \<open>fade\<close> are not in the table
  and are not counted.
\<close>

theorem one_pending_bounds_step:
  "length (bounds_pending w (run acts (new_engine pool wins t0))) \<le> 1
   \<and> (\<forall>e \<in> set (bounds_pending w (run acts (new_engine pool wins t0))).
         map_of (animationTimers (run acts (new_engine pool wins t0))) w = Some (fst e))"
  using tc_bounds_pending_le1[OF tc_reachable, of w acts pool wins t0]
    tc_table[OF tc_reachable, of _ acts pool wins t0 w]
  by (auto simp add: bounds_pending_def)

theorem one_pending_bounds_step_witness:
  "length (bounds_pending 0 (run [AnimateWindowBounds (Some 0) (x_only 100) None (Some 1),
                                  AnimateWindowBounds (Some 0) (x_only 200) None (Some 2)]
             (new_engine (\<lambda>_. None) (\<lambda>_. example_window) 0))) = 1
   \<and> animationTimers (run [AnimateWindowBounds (Some 0) (x_only 100) None (Some 1),
                            AnimateWindowBounds (Some 0) (x_only 200) None (Some 2)]
             (new_engine (\<lambda>_. None) (\<lambda>_. example_window) 0)) = [(0, 1)]"
  using one_pending_bounds_step[where w = 0 and pool = "\<lambda>_. None" and wins = "\<lambda>_. example_window"
      and ?t0.0 = 0
      and acts = "[AnimateWindowBounds (Some 0) (x_only 100) None (Some 1),
                   AnimateWindowBounds (Some 0) (x_only 200) None (Some 2)]"]
  by (simp add: engine_eval bounds_pending_def)

text \<open>C5 as stated fails on the legacy path: after two calls of \<open>animateWindow\<close>
  for the same window two step chains are pending for it at once, neither in the timer
  table, and 8 ms later both have written the window's bounds, each from its own start
  and towards its own target, and both are pending again.\<close>

theorem legacy_chains_counterexample:
  "map (snd \<circ> snd) (pending two_move_chains) =
     [Move 0 (rect 0 0 100 100) 100 0 100 100 0 300 None,
      Move 0 (rect 0 0 100 100) 0 100 100 100 0 300 None]
   \<and> animationTimers two_move_chains = []
   \<and> drop 2 (trace two_move_chains_later) =
     [SetBounds 0 (rect 8 0 100 100), SetBounds 0 (rect 0 8 100 100)]
   \<and> map (snd \<circ> snd) (pending two_move_chains_later) =
     [Move 0 (rect 0 0 100 100) 100 0 100 100 0 300 None,
      Move 0 (rect 0 0 100 100) 0 100 100 100 0 300 None]"
  by (simp add: two_move_chains_eval two_move_chains_later_eval)







text \<open>
  C8. \<open>animateWindowPosition\<close> on a live window runs the first step of one timer-table
  session, whose start is the window's bounds \<open>b\<close> and whose target is \<open>b\<close> with \<open>x\<close> and \<open>y\<close>
  replaced where the partial target has them. The target has the width and the height
  of \<open>b\<close>, and the \<open>x\<close> (the \<open>y\<close>) of \<open>b\<close> when the partial target has none. Every step of
  the session, whenever it runs on the live window, writes only rectangles whose width
  and height, and whose \<open>x\<close> or \<open>y\<close> when absent from the partial target, are those of \<open>b\<close>;
  a step whose progress is below 1 schedules the same session again and the other one
  leaves the window exactly at the target. In the scenario of the specification the
  writes are x = 0, 16, 200, 200 with y = 0, width 100 and height 100 throughout, and the
  final bounds are \<open>{x: 200, y: 0, width: 100, height: 100}\<close>.
\<close>

theorem position_keeps_other_fields:
  assumes "\<not> win_destroyed (windows st w)"
  shows "let b = win_bounds (windows st w);
             target = merge_rect b \<lparr> part_x = tx, part_y = ty, part_width = None, part_height = None \<rparr>;
             S = Bounds w b target (clock st) (eff_duration dur) cb
         in animateWindowPosition (Some w) tx ty dur cb st
              = run_step S ((precancel (Some w) st)\<lparr> isAnimating := True \<rparr>)
          \<and> rect_width target = rect_width b \<and> rect_height target = rect_height b
          \<and> (tx = None \<longrightarrow> rect_x target = rect_x b) \<and> (ty = None \<longrightarrow> rect_y target = rect_y b)
          \<and> (\<forall>st2. \<not> win_destroyed (windows st2 w) \<longrightarrow>
                (\<forall>r \<in> set (written_bounds (step_events S st2)).
                    rect_width r = rect_width b \<and> rect_height r = rect_height b
                  \<and> (tx = None \<longrightarrow> rect_x r = rect_x b) \<and> (ty = None \<longrightarrow> rect_y r = rect_y b))
              \<and> (progress (clock st2 - clock st) (eff_duration dur) < 1 \<longrightarrow>
                    pending (run_step S st2) = pending st2 @ [(next_timer st2, clock st2 + 8, S)])
              \<and> (\<not> progress (clock st2 - clock st) (eff_duration dur) < 1 \<longrightarrow>
                    win_bounds (windows (run_step S st2) w) = target
                  \<and> pending (run_step S st2) = pending st2))"
proof -
  define b where "b = win_bounds (windows st w)"
  define target where "target = merge_rect b \<lparr> part_x = tx, part_y = ty, part_width = None, part_height = None \<rparr>"
  define S where "S = Bounds w b target (clock st) (eff_duration dur) cb"
  have call: "animateWindowPosition (Some w) tx ty dur cb st
              = run_step S ((precancel (Some w) st)\<lparr> isAnimating := True \<rparr>)"
    unfolding S_def target_def b_def by (rule animateWindowPosition_valid[OF assms])
  have tf: "rect_width target = rect_width b" "rect_height target = rect_height b"
    "tx = None \<longrightarrow> rect_x target = rect_x b" "ty = None \<longrightarrow> rect_y target = rect_y b"
    unfolding target_def by (auto simp add: merge_position_fields)
  have steps: "(\<forall>r \<in> set (written_bounds (step_events S st2)).
                    rect_width r = rect_width b \<and> rect_height r = rect_height b
                  \<and> (tx = None \<longrightarrow> rect_x r = rect_x b) \<and> (ty = None \<longrightarrow> rect_y r = rect_y b))
              \<and> (progress (clock st2 - clock st) (eff_duration dur) < 1 \<longrightarrow>
                    pending (run_step S st2) = pending st2 @ [(next_timer st2, clock st2 + 8, S)])
              \<and> (\<not> progress (clock st2 - clock st) (eff_duration dur) < 1 \<longrightarrow>
                    win_bounds (windows (run_step S st2) w) = target
                  \<and> pending (run_step S st2) = pending st2)"
    if alive: "\<not> win_destroyed (windows st2 w)" for st2
  proof -
    have w: "rect_width r = rect_width b \<and> rect_height r = rect_height b
                  \<and> (tx = None \<longrightarrow> rect_x r = rect_x b) \<and> (ty = None \<longrightarrow> rect_y r = rect_y b)"
      if "r \<in> set (written_bounds (step_events S st2))" for r
    proof -
      from that bounds_written_subset[OF alive, of b target "clock st" "eff_duration dur" cb]
      have "r = newBounds b target (eased (progress (clock st2 - clock st) (eff_duration dur))) \<or> r = target"
        unfolding S_def by auto
      then show ?thesis using tf by (auto simp add: newBounds_def)
    qed
    have c: "pending (run_step S st2) = pending st2 @ [(next_timer st2, clock st2 + 8, S)]"
      if "progress (clock st2 - clock st) (eff_duration dur) < 1"
      unfolding S_def by (simp add: bounds_step_continue[OF alive that])
    have f: "win_bounds (windows (run_step S st2) w) = target \<and> pending (run_step S st2) = pending st2"
      if "\<not> progress (clock st2 - clock st) (eff_duration dur) < 1"
      unfolding S_def by (simp add: bounds_step_complete[OF alive that])
    from w c f show ?thesis by blast
  qed
  from call tf steps show ?thesis
    unfolding Let_def b_def[symmetric] target_def[symmetric] S_def[symmetric] by blast
qed

theorem position_keeps_other_fields_witness:
  "\<not> win_destroyed (windows example_engine 0)
   \<and> animateWindowPosition (Some 0) (Some 200) None (Some 300) None example_engine
       = run_step (Bounds 0 (rect 0 0 100 100) (rect 200 0 100 100) 0 300 None)
           (example_engine\<lparr> isAnimating := True \<rparr>)
   \<and> map rect_x (written_bounds (trace position_scenario)) = [0, 16, 200, 200]
   \<and> map rect_y (written_bounds (trace position_scenario)) = [0, 0, 0, 0]
   \<and> map rect_width (written_bounds (trace position_scenario)) = [100, 100, 100, 100]
   \<and> map rect_height (written_bounds (trace position_scenario)) = [100, 100, 100, 100]
   \<and> win_bounds (windows position_scenario 0) = (rect 200 0 100 100)"
  using position_keeps_other_fields[where st = example_engine and w = 0 and tx = "Some 200"
      and ty = None and dur = "Some 300" and cb = None]
  by (simp add: position_scenario_eval)
     (simp add: example_engine_def new_engine_def example_window_def Let_def merge_rect_def
        eff_duration_def precancel_def)

text \<open>
  C9. The completion path of a timer-table step recomputes the flag from the table
  (\<open>if (this.animationTimers.size === 0) this.isAnimating = false\<close>), and so does
  \<open>destroy\<close>; the path taken when the window has become invalid removes the table entry
  in \<open>_isWindowValid\<close> and returns without recomputing it. After one animation whose
  window is destroyed before the next step, the table is empty, nothing is pending and
  the flag still reads true; after a run that ends on the completion path the table is
  empty and the flag reads false.
\<close>

theorem stale_activity_flag:
  "animationTimers stale_flag_run = [] \<and> pending stale_flag_run = []
   \<and> isAnimating stale_flag_run = True
   \<and> animationTimers superseded_run = [] \<and> isAnimating superseded_run = False"
  by (simp add: stale_flag_run_eval superseded_run_eval)

text \<open>
  C10, as the code has it. In every state the engine can reach, \<open>destroy\<close> removes every
  pending step of the timer-table mode, for every window, empties the table and resets
  the flag; it writes nothing and invokes no continuation, so the cancelled sessions end
  silently. The pending steps of \<open>animateWindow\<close> and \<open>fade\<close> are not in the table: they
  all stay pending.
\<close>

theorem destroy_cancels_table:
  "bounds_pending w (destroy (run acts (new_engine pool wins t0))) = []
   \<and> animationTimers (destroy (run acts (new_engine pool wins t0))) = []
   \<and> isAnimating (destroy (run acts (new_engine pool wins t0))) = False
   \<and> trace (destroy (run acts (new_engine pool wins t0))) = trace (run acts (new_engine pool wins t0))
   \<and> windows (destroy (run acts (new_engine pool wins t0))) = windows (run acts (new_engine pool wins t0))
   \<and> pending (destroy (run acts (new_engine pool wins t0)))
        = filter (\<lambda>e. \<not> is_bounds (snd (snd e))) (pending (run acts (new_engine pool wins t0)))"
proof -
  let ?st = "run acts (new_engine pool wins t0)"
  have tc: "timers_consistent ?st" by (rule tc_reachable)
  have a: "bounds_pending w (destroy ?st) = []"
    using destroy_clears_bounds[OF tc] by (auto simp add: bounds_pending_empty_iff)
  have "(fst e \<notin> snd ` set (animationTimers ?st)) = (\<not> is_bounds (snd (snd e)))"
    if e: "e \<in> set (pending ?st)" for e
  proof
    assume "fst e \<notin> snd ` set (animationTimers ?st)"
    with e have "e \<in> set (pending (destroy ?st))" by simp
    from destroy_clears_bounds[OF tc this] show "\<not> is_bounds (snd (snd e))"
      by (cases "snd (snd e)") auto
  next
    assume "\<not> is_bounds (snd (snd e))"
    from destroy_keeps_others[OF tc e this] show "fst e \<notin> snd ` set (animationTimers ?st)" by simp
  qed
  then have "pending (destroy ?st) = filter (\<lambda>e. \<not> is_bounds (snd (snd e))) (pending ?st)"
    by (simp cong: filter_cong)
  with a show ?thesis by simp
qed

theorem destroy_cancels_table_witness:
  "pending (destroy (run [AnimateWindowBounds (Some 0) (x_only 100) None (Some 1),
                          Fade (Some 0) (Some 1) 0 None (Some 2)]
             (new_engine (\<lambda>_. None) (\<lambda>_. example_window) 0)))
     = [(1, 8, Fading 0 (Fin 1) 0 0 250 (Some 2))]
   \<and> trace (destroy (run [AnimateWindowBounds (Some 0) (x_only 100) None (Some 1),
                          Fade (Some 0) (Some 1) 0 None (Some 2)]
             (new_engine (\<lambda>_. None) (\<lambda>_. example_window) 0)))
     = [SetBounds 0 (rect 0 0 100 100), SetOpacity 0 (Fin 1)]"
  using destroy_cancels_table[where w = 0 and pool = "\<lambda>_. None" and wins = "\<lambda>_. example_window"
      and ?t0.0 = 0
      and acts = "[AnimateWindowBounds (Some 0) (x_only 100) None (Some 1),
                   Fade (Some 0) (Some 1) 0 None (Some 2)]"]
  by (simp add: engine_eval)

text \<open>C10 as stated fails for the sessions outside the timer table: a \<open>fade\<close> in
  flight when \<open>destroy\<close> is called is still pending afterwards; its step runs later,
  writes the window's opacity and invokes the continuation.\<close>

theorem destroy_counterexample:
  "pending fade_then_destroy = [(0, 8, Fading 0 (Fin 1) 0 0 250 (Some 1))]
   \<and> trace fade_then_destroy = [SetOpacity 0 (Fin 1)]
   \<and> trace fade_after_destroy =
        [SetOpacity 0 (Fin 1), SetOpacity 0 (Fin 0), SetOpacity 0 (Fin 0), Completed 1]"
  by (simp add: fade_then_destroy_eval fade_after_destroy_eval)

end
